theory Spec2Isabelle
  imports Complex_Main "HOL-Library.Sublist" "HOL-Library.AList"
begin

section \<open>JavaScript strings\<close>

text \<open>
  Strings are modelled as \<^typ>\<open>string\<close>, read as ASCII text: letter case, white space and
  the word characters of regular expressions are the ASCII ones.
\<close>

definition isUpper :: "char \<Rightarrow> bool" where
  "isUpper c = (65 \<le> (of_char c :: nat) \<and> (of_char c :: nat) \<le> 90)"

definition lowerChar :: "char \<Rightarrow> char" where
  "lowerChar c = (if isUpper c then char_of ((of_char c :: nat) + 32) else c)"

text \<open>\<^verbatim>\<open>String.prototype.toLowerCase\<close>.\<close>

definition toLowerCase :: "string \<Rightarrow> string" where
  "toLowerCase s = map lowerChar s"

text \<open>\<^verbatim>\<open>String.prototype.includes\<close>: the argument occurs as a contiguous substring.\<close>

definition includes_str :: "string \<Rightarrow> string \<Rightarrow> bool" where
  "includes_str s t = sublist t s"

text \<open>White space removed by \<^verbatim>\<open>String.prototype.trim\<close>: tab, line feed, vertical tab, form
  feed, carriage return and space.\<close>

definition isSpace :: "char \<Rightarrow> bool" where
  "isSpace c = ((of_char c :: nat) \<in> {9, 10, 11, 12, 13, 32})"

definition trim :: "string \<Rightarrow> string" where
  "trim s = rev (dropWhile isSpace (rev (dropWhile isSpace s)))"

section \<open>JSON values\<close>

text \<open>
  The values \<^verbatim>\<open>JSON.parse\<close> can return. A number is kept exactly, as mantissa and decimal
  exponent (\<open>JNumber m e\<close> is \<open>m * 10 ^ e\<close>); an object keeps its members in the order
  of first insertion (JavaScript lists integer-like keys first; only the set of keys and
  the value under a key are used below).
\<close>

datatype json =
    JNull
  | JBool bool
  | JNumber int int
  | JString string
  | JArray "json list"
  | JObject "(string \<times> json) list"

datatype js_error = TypeError | SyntaxError

text \<open>JavaScript truthiness, as \<^verbatim>\<open>!!v\<close>, \<^verbatim>\<open>v && ...\<close> and \<^verbatim>\<open>v || ...\<close> read it.\<close>

fun truthy :: "json \<Rightarrow> bool" where
  "truthy JNull = False"
| "truthy (JBool b) = b"
| "truthy (JNumber m e) = (m \<noteq> 0)"
| "truthy (JString s) = (s \<noteq> [])"
| "truthy (JArray xs) = True"
| "truthy (JObject kvs) = True"

section \<open>Allergen catalog\<close>

record Allergen =
  key :: string
  labels :: "string list"

definition ALLERGENS :: "Allergen list" where
  "ALLERGENS =
    [\<lparr>key = ''peanut'', labels = [''peanut'', ''groundnut'', ''arachis'']\<rparr>,
     \<lparr>key = ''tree_nuts'', labels = [''almond'', ''walnut'', ''pecan'', ''hazelnut'',
        ''pistachio'', ''cashew'', ''brazil nut'', ''macadamia'']\<rparr>,
     \<lparr>key = ''milk'', labels = [''milk'', ''dairy'', ''casein'', ''whey'', ''lactose'']\<rparr>,
     \<lparr>key = ''egg'', labels = [''egg'', ''albumen'', ''ovalbumin'']\<rparr>,
     \<lparr>key = ''gluten'', labels = [''gluten'', ''wheat'', ''barley'', ''rye'', ''spelt'',
        ''malt'']\<rparr>,
     \<lparr>key = ''soy'', labels = [''soy'', ''soya'', ''soybean'', ''lecithin (soya)'']\<rparr>,
     \<lparr>key = ''sesame'', labels = [''sesame'', ''tahini'', ''sesamum'']\<rparr>,
     \<lparr>key = ''fish'', labels = [''fish'', ''anchovy'', ''cod'', ''salmon'', ''tuna'']\<rparr>,
     \<lparr>key = ''shellfish'', labels = [''shrimp'', ''prawn'', ''crab'', ''lobster'', ''oyster'',
        ''clam'', ''mussel'', ''scallop'']\<rparr>,
     \<lparr>key = ''mustard'', labels = [''mustard'']\<rparr>,
     \<lparr>key = ''celery'', labels = [''celery'']\<rparr>,
     \<lparr>key = ''sulfites'', labels = [''sulphite'', ''sulfite'', ''e220'', ''e221'', ''e222'',
        ''e223'', ''e224'', ''e226'', ''e227'', ''e228'']\<rparr>]"

section \<open>Products and the allergen profile\<close>

record Product =
  code :: string
  product_name :: "string option"
  brands :: "string option"
  ingredients_text :: "string option"
  allergens_tags :: "string list option"

text \<open>
  The component's \<^verbatim>\<open>profile\<close> state starts as the value \<^verbatim>\<open>loadProfile()\<close> returned, so it is a
  JSON value; a \<^verbatim>\<open>Record<string, boolean>\<close> is a \<open>JObject\<close> with \<open>JBool\<close> members.

  \<^verbatim>\<open>profile[k]\<close> read for its truthiness. Reading a property of \<^verbatim>\<open>null\<close> throws; the source
  reads only the catalog's keys, none of which names a property of a primitive or an array.
\<close>

definition flag :: "json \<Rightarrow> string \<Rightarrow> bool" where
  "flag profile k =
     (case profile of
        JObject kvs \<Rightarrow> (case map_of kvs k of Some v \<Rightarrow> truthy v | None \<Rightarrow> False)
      | _ \<Rightarrow> False)"

text \<open>\<^verbatim>\<open>selectedLabels\<close>: the keyword variants of the selected categories, in catalog order.\<close>

definition selectedLabels :: "json \<Rightarrow> js_error + string list" where
  "selectedLabels profile =
     (if profile = JNull then Inl TypeError
      else Inr (concat (map labels (filter (\<lambda>a. flag profile (key a)) ALLERGENS))))"

record RiskResult =
  hits :: "string list"
  hasRisk :: bool

text \<open>\<^verbatim>\<open>Array.from(new Set(xs))\<close>: the first occurrence of each element, in order.\<close>

definition uniq :: "'a list \<Rightarrow> 'a list" where
  "uniq xs = fold (\<lambda>x acc. if x \<in> set acc then acc else acc @ [x]) xs []"

definition isLineTerminator :: "char \<Rightarrow> bool" where
  "isLineTerminator c = ((of_char c :: nat) \<in> {10, 13})"

text \<open>\<^verbatim>\<open>t.replace(/^..:/, "")\<close>: drops a leading two-character prefix and its colon.\<close>

definition stripLang :: "string \<Rightarrow> string" where
  "stripLang t =
     (case t of
        a # b # c # rest \<Rightarrow>
          (if c = CHR '':'' \<and> \<not> isLineTerminator a \<and> \<not> isLineTerminator b then rest else t)
      | _ \<Rightarrow> t)"

definition orEmpty :: "string option \<Rightarrow> string" where
  "orEmpty s = (case s of None \<Rightarrow> [] | Some t \<Rightarrow> t)"

definition riskFor :: "json \<Rightarrow> Product option \<Rightarrow> js_error + RiskResult" where
  "riskFor profile p0 =
     (case p0 of
        None \<Rightarrow> Inr \<lparr>hits = [], hasRisk = False\<rparr>
      | Some p \<Rightarrow>
          (case selectedLabels profile of
             Inl e \<Rightarrow> Inl e
           | Inr sel \<Rightarrow>
               (let ing = toLowerCase (orEmpty (ingredients_text p));
                    textHits = filter (\<lambda>lbl. includes_str ing (toLowerCase lbl)) sel;
                    tagHits = filter
                      (\<lambda>t. list_ex (\<lambda>a. flag profile (key a) \<and> (key a = t \<or> t \<in> set (labels a)))
                            ALLERGENS)
                      (map stripLang (case allergens_tags p of None \<Rightarrow> [] | Some ts \<Rightarrow> ts));
                    u = uniq (textHits @ tagHits)
                in Inr \<lparr>hits = u, hasRisk = (length u > 0)\<rparr>)))"

section \<open>Highlighting\<close>

definition backslash :: char where
  "backslash = CHR 0x5C"

text \<open>The characters of the class \<^verbatim>\<open>[.*+?^${}()|[\]\\]\<close>.\<close>

definition regexSpecial :: "char \<Rightarrow> bool" where
  "regexSpecial c = (c \<in> set (''.*+?^${}()|[]'' @ [backslash]))"

text \<open>\<^verbatim>\<open>n.replace(/[.*+?^${}()|[\]\\]/g, "\\$&")\<close>: a backslash before each special character.\<close>

definition escapeRegExp :: "string \<Rightarrow> string" where
  "escapeRegExp n = concat (map (\<lambda>c. if regexSpecial c then [backslash, c] else [c]) n)"

text \<open>\<^verbatim>\<open>Array.prototype.join\<close> on strings.\<close>

fun join :: "string \<Rightarrow> string list \<Rightarrow> string" where
  "join sep [] = []"
| "join sep [x] = x"
| "join sep (x # y # ys) = x @ sep @ join sep (y # ys)"

text \<open>
  The group \<^verbatim>\<open>(...)\<close> of the pattern, read from its source: the alternatives are what lies
  between unescaped bars, and in an alternative an escaped character stands for itself, as
  does any other character. Only sources made by \<open>escapeRegExp\<close> and \<open>join\<close> are
  read, where every special character but the joining bars is escaped. The source of an
  empty list of needles is empty, and that is one alternative, the empty one.
\<close>

fun alternatives :: "string \<Rightarrow> string list" where
  "alternatives [] = [[]]"
| "alternatives (c # cs) =
     (if c = CHR ''|'' then [] # alternatives cs
      else if c = backslash then
        (case cs of
           [] \<Rightarrow> [[c]]
         | d # ds \<Rightarrow> (case alternatives ds of [] \<Rightarrow> [[d]] | a # as \<Rightarrow> (d # a) # as))
      else (case alternatives cs of [] \<Rightarrow> [[c]] | a # as \<Rightarrow> (c # a) # as))"

text \<open>The word characters of \<^verbatim>\<open>\b\<close>: letters, digits and the underscore.\<close>

definition isWordChar :: "char \<Rightarrow> bool" where
  "isWordChar c =
     (let n = (of_char c :: nat)
      in (48 \<le> n \<and> n \<le> 57) \<or> (65 \<le> n \<and> n \<le> 90) \<or> (97 \<le> n \<and> n \<le> 122) \<or> n = 95)"

text \<open>\<^verbatim>\<open>\b\<close> between the character before a position (if any) and the one after it (if any).\<close>

definition wordBoundary :: "char option \<Rightarrow> char option \<Rightarrow> bool" where
  "wordBoundary prev nxt =
     ((case prev of None \<Rightarrow> False | Some c \<Rightarrow> isWordChar c) \<noteq>
      (case nxt of None \<Rightarrow> False | Some c \<Rightarrow> isWordChar c))"

definition headOpt :: "'a list \<Rightarrow> 'a option" where
  "headOpt xs = (case xs of [] \<Rightarrow> None | x # _ \<Rightarrow> Some x)"

text \<open>
  One alternative tried at a position, under the flag \<^verbatim>\<open>i\<close>: the text starts with the
  literal, letter case ignored, and a \<^verbatim>\<open>\b\<close> follows the matched characters.
\<close>

definition altMatches :: "char option \<Rightarrow> string \<Rightarrow> string \<Rightarrow> bool" where
  "altMatches prev rest lit =
     (toLowerCase (take (length lit) rest) = toLowerCase lit \<and>
      wordBoundary (if lit = [] then prev else Some (last (take (length lit) rest)))
        (headOpt (drop (length lit) rest)))"

text \<open>
  \<^verbatim>\<open>\b(a1|a2|...)\b\<close> tried at a position: the leading \<^verbatim>\<open>\b\<close>, then the alternatives in
  order, the first that matches deciding the length of the match.
\<close>

definition matchAt :: "string list \<Rightarrow> char option \<Rightarrow> string \<Rightarrow> nat option" where
  "matchAt lits prev rest =
     (if wordBoundary prev (headOpt rest)
      then map_option length (find (altMatches prev rest) lits)
      else None)"

definition mark :: "string \<Rightarrow> string" where
  "mark m = ''<mark style='' @ [CHR 0x22] @ ''background:#ffcccc'' @ [CHR 0x22] @ ''>'' @ m
            @ ''</mark>''"

text \<open>
  \<^verbatim>\<open>text.replace(re, m => mark(m))\<close> with the flag \<^verbatim>\<open>g\<close>: matches are looked for from left
  to right; a match is replaced and the search goes on behind it, an empty match is
  replaced and the search goes on one character further. \<open>skip\<close> counts the characters
  of the current match still to pass, \<open>prev\<close> is the character before the position.
\<close>

fun replaceAll :: "string list \<Rightarrow> char option \<Rightarrow> nat \<Rightarrow> string \<Rightarrow> string" where
  "replaceAll lits prev skip [] =
     (if skip = 0 \<and> matchAt lits prev [] \<noteq> None then mark [] else [])"
| "replaceAll lits prev skip (c # cs) =
     (if skip > 0 then replaceAll lits (Some c) (skip - 1) cs
      else (case matchAt lits prev (c # cs) of
              None \<Rightarrow> c # replaceAll lits (Some c) 0 cs
            | Some 0 \<Rightarrow> mark [] @ c # replaceAll lits (Some c) 0 cs
            | Some (Suc n) \<Rightarrow> mark (take (Suc n) (c # cs)) @ replaceAll lits (Some c) n cs))"

text \<open>\<^verbatim>\<open>highlight(text, needles)\<close>.\<close>

definition highlight :: "string \<Rightarrow> string list \<Rightarrow> string" where
  "highlight text needles =
     (if text = [] then []
      else (let safe = map escapeRegExp needles
            in replaceAll (alternatives (join ''|'' safe)) None 0 text))"

text \<open>
  What the pattern looks for, said without the scan: the literal occurs in the text at
  index \<open>i\<close>, letter case ignored, with a \<^verbatim>\<open>\b\<close> on each side of the occurrence.
\<close>

definition charAt :: "string \<Rightarrow> nat \<Rightarrow> char option" where
  "charAt s i = (if i < length s then Some (s ! i) else None)"

definition charBefore :: "string \<Rightarrow> nat \<Rightarrow> char option" where
  "charBefore s i = (if i = 0 then None else charAt s (i - 1))"

definition occursAt :: "string \<Rightarrow> nat \<Rightarrow> string \<Rightarrow> bool" where
  "occursAt text i lit =
     (i + length lit \<le> length text \<and>
      toLowerCase (take (length lit) (drop i text)) = toLowerCase lit \<and>
      wordBoundary (charBefore text i) (charAt text i) \<and>
      wordBoundary (charBefore text (i + length lit)) (charAt text (i + length lit)))"

section \<open>Product search\<close>

text \<open>
  What the catalog's search sends back: the request fails or its body does not parse, or
  the body is an object whose \<^verbatim>\<open>products\<close> may be missing. An upstream product is read
  through the fields of \<open>Product\<close>, a missing or null field being \<open>None\<close>.
\<close>

datatype OffReply = OffFailure | OffJson "Product list option"

text \<open>\<^verbatim>\<open>p.product_name && p.product_name.toLowerCase().includes(q.toLowerCase())\<close>.\<close>

definition nameMatches :: "string \<Rightarrow> Product \<Rightarrow> bool" where
  "nameMatches q p =
     (case product_name p of
        None \<Rightarrow> False
      | Some n \<Rightarrow> n \<noteq> [] \<and> includes_str (toLowerCase n) (toLowerCase q))"

text \<open>The mapping of a candidate to a \<open>Product\<close>: only the tags that start with
  \<^verbatim>\<open>en:\<close> are kept, without that prefix.\<close>

definition toProduct :: "Product \<Rightarrow> Product" where
  "toProduct p =
     \<lparr>code = code p, product_name = product_name p, brands = brands p,
      ingredients_text = ingredients_text p,
      allergens_tags =
        Some (map (drop 3)
               (filter (prefix ''en:'') (case allergens_tags p of None \<Rightarrow> [] | Some ts \<Rightarrow> ts)))\<rparr>"

text \<open>
  The \<^verbatim>\<open>Map<string, Product>\<close> of the loop, as the list of its entries in insertion order.
  One round of the loop: \<^verbatim>\<open>if (name && !map.has(name)) map.set(name, p)\<close>.
\<close>

definition addUnique :: "Product \<Rightarrow> (string \<times> Product) list \<Rightarrow> (string \<times> Product) list" where
  "addUnique p m =
     (let name = orEmpty (product_name p)
      in if name \<noteq> [] \<and> map_of m name = None then m @ [(name, p)] else m)"

text \<open>\<^verbatim>\<open>Array.from(uniqueProdsMap.values())\<close> after the loop.\<close>

definition uniqueProds :: "Product list \<Rightarrow> Product list" where
  "uniqueProds prods = map snd (fold addUnique prods [])"

text \<open>
  \<^verbatim>\<open>search()\<close>, as the result list it leaves in the state (the selection is cleared on every
  path). A blank query sends no request.
\<close>

definition search :: "string \<Rightarrow> OffReply \<Rightarrow> Product list" where
  "search q reply =
     (if trim q = [] then []
      else (case reply of
              OffFailure \<Rightarrow> []
            | OffJson ps \<Rightarrow>
                (let filtered = filter (nameMatches q) (case ps of None \<Rightarrow> [] | Some l \<Rightarrow> l);
                     prods = map toProduct filtered
                 in take 5 (uniqueProds prods))))"

section \<open>Dietary badge\<close>

record Badge =
  label :: string
  color :: string
  bg :: string

text \<open>
  \<^verbatim>\<open>classifyCarbs(carbs: number)\<close>. The grams arrive in a JSON body, so they are finite; on
  finite numbers the comparisons of the source are those of the reals.
\<close>

definition classifyCarbs :: "real \<Rightarrow> Badge" where
  "classifyCarbs carbs =
     (if carbs > 30 then \<lparr>label = ''Avoid'', color = ''#d33'', bg = ''#ffecec''\<rparr>
      else if carbs \<ge> 15 then \<lparr>label = ''Limit'', color = ''#a96d00'', bg = ''#fff4d6''\<rparr>
      else \<lparr>label = ''Eat'', color = ''#1a7f37'', bg = ''#e9f7ef''\<rparr>)"

text \<open>The key of a product in the loop's map: \<^verbatim>\<open>p.product_name ?? ""\<close>.\<close>

definition nameKey :: "Product \<Rightarrow> string" where
  "nameKey p = orEmpty (product_name p)"

text \<open>
  What holds of the map after the loop has run over \<open>xs\<close>: each entry is filed under its
  product's name, no name is filed twice, the entries are products of \<open>xs\<close> in the
  order of \<open>xs\<close>, every non-empty name of \<open>xs\<close> is filed, and the product filed under a
  name is the first of \<open>xs\<close> with that name.
\<close>

definition uniqInv :: "Product list \<Rightarrow> (string \<times> Product) list \<Rightarrow> bool" where
  "uniqInv xs m =
     (map fst m = map nameKey (map snd m) \<and>
      distinct (map fst m) \<and>
      subseq (map snd m) xs \<and>
      set (map fst m) = set (map nameKey xs) - {[]} \<and>
      (\<forall>u \<in> set (map snd m). find (\<lambda>c. nameKey c = nameKey u) xs = Some u))"

section \<open>Nutrition proxy\<close>

record NutritionInfo =
  source :: string
  matchType :: string
  serving_desc :: string
  calories_kcal :: int
  carbs_g :: int
  sugar_g :: int
  raw_name :: string

text \<open>
  The module's \<^verbatim>\<open>cache\<close>, a \<^verbatim>\<open>Map\<close> from key to \<^verbatim>\<open>{ data, t }\<close>, with \<open>t\<close> the reading of
  \<^verbatim>\<open>Date.now()\<close> (milliseconds) when the entry was stored.
\<close>

type_synonym Cache = "string \<rightharpoonup> (NutritionInfo \<times> int)"

text \<open>\<^verbatim>\<open>get(k)\<close> at time \<open>now\<close>: the data of a live entry; an entry older than 5 minutes is
  deleted and not returned.\<close>

definition get :: "int \<Rightarrow> Cache \<Rightarrow> string \<Rightarrow> NutritionInfo option \<times> Cache" where
  "get now cache k =
     (case cache k of
        None \<Rightarrow> (None, cache)
      | Some (d, t) \<Rightarrow>
          (if now - t > 5 * 60 * 1000 then (None, cache(k := None)) else (Some d, cache)))"

text \<open>\<^verbatim>\<open>set(k, data)\<close> at time \<open>now\<close>.\<close>

definition set_cache :: "int \<Rightarrow> Cache \<Rightarrow> string \<Rightarrow> NutritionInfo \<Rightarrow> Cache" where
  "set_cache now cache k d = cache(k \<mapsto> (d, now))"

text \<open>
  Numeric fields of the upstream payloads are read through \<^verbatim>\<open>num\<close>: \<open>Some r\<close> stands for
  a field that \<^verbatim>\<open>Number\<close> turns into the finite number \<open>r\<close>, \<open>None\<close> for a field that is
  missing or not such a number.
\<close>

definition num :: "real option \<Rightarrow> real" where
  "num x = (case x of Some n \<Rightarrow> n | None \<Rightarrow> 0)"

record Nutrients =
  calories :: real
  carbs :: real
  sugars :: real

text \<open>The label block of a food, each field already read as \<^verbatim>\<open>ln.<field>?.value\<close>.\<close>

record LabelNutrients =
  ln_calories :: "real option"
  ln_carbohydrates :: "real option"
  ln_sugars :: "real option"

definition fromLabel :: "LabelNutrients \<Rightarrow> Nutrients" where
  "fromLabel lab =
     \<lparr>calories = num (ln_calories lab), carbs = num (ln_carbohydrates lab),
      sugars = num (ln_sugars lab)\<rparr>"

text \<open>An entry of the nutrient list: \<^verbatim>\<open>String(n?.nutrient?.number)\<close> and \<^verbatim>\<open>n.amount\<close>.\<close>

record FoodNutrient =
  number :: string
  amount :: "real option"

definition fromNutrients :: "FoodNutrient list \<Rightarrow> Nutrients" where
  "fromNutrients list =
     (let find_code = (\<lambda>c. case find (\<lambda>n. number n = c) list of
                               None \<Rightarrow> None
                             | Some n \<Rightarrow> amount n)
      in \<lparr>calories = num (find_code ''1008''), carbs = num (find_code ''1005''),
          sugars = num (find_code ''2000'')\<rparr>)"

text \<open>A candidate of the search; \<open>fdcId\<close> as it is written into the detail URL.\<close>

record Hit =
  fdcId :: string
  dataType :: "string option"
  description :: "string option"

text \<open>
  The food detail. \<open>servingSize\<close> is the number as the template string prints it, and
  \<open>None\<close> when the field is missing or zero (both falsy).
\<close>

record Detail =
  labelNutrients :: "LabelNutrients option"
  foodNutrients :: "FoodNutrient list option"
  brandOwner :: "string option"
  householdServingFullText :: "string option"
  servingSize :: "string option"
  servingSizeUnit :: "string option"
  d_description :: "string option"

text \<open>
  What the two upstream calls can do. The search: the call or the reading of its body
  throws, the status is not ok, or the body is read and \<^verbatim>\<open>foods\<close> is an array or not. The
  detail: the call or the reading of its body throws, or the body is read.
\<close>

datatype SearchReply = SearchThrows | SearchNotOk | SearchBody "Hit list option"

datatype DetailReply = DetailThrows | DetailBody Detail

datatype UpstreamCall = SearchCall string | DetailCall string

text \<open>
  What a request meets: the configured key, the upstream service (the search by query
  text, the detail by identifier) and the readings of \<^verbatim>\<open>Date.now()\<close> at the cache lookup
  and at the store.
\<close>

record Env =
  USDA_KEY :: "string option"
  searchFoods :: "string \<Rightarrow> SearchReply"
  foodDetail :: "string \<Rightarrow> DetailReply"
  now_get :: int
  now_set :: int

text \<open>The request body; a field is \<open>None\<close> when it or the body is missing.\<close>

record Body =
  name :: "json option"
  brand :: "json option"

datatype ResBody = ErrorBody string | NutritionBody NutritionInfo

record Response =
  status :: nat
  body :: ResBody

definition errorResponse :: "nat \<Rightarrow> string \<Rightarrow> Response" where
  "errorResponse st msg = \<lparr>status = st, body = ErrorBody msg\<rparr>"

definition okResponse :: "NutritionInfo \<Rightarrow> Response" where
  "okResponse d = \<lparr>status = 200, body = NutritionBody d\<rparr>"

text \<open>\<^verbatim>\<open>(field || '').trim()\<close>: a truthy value that is not a string has no \<^verbatim>\<open>trim\<close>.\<close>

definition trimmedField :: "json option \<Rightarrow> js_error + string" where
  "trimmedField v =
     (case v of
        None \<Rightarrow> Inr []
      | Some j \<Rightarrow>
          (if \<not> truthy j then Inr []
           else (case j of JString s \<Rightarrow> Inr (trim s) | _ \<Rightarrow> Inl TypeError)))"

text \<open>\<^verbatim>\<open>[brand, name].filter(Boolean).join(' ').trim() || name\<close>.\<close>

definition lookupQuery :: "string \<Rightarrow> string \<Rightarrow> string" where
  "lookupQuery b n =
     (let q = trim (join '' '' (filter (\<lambda>s. s \<noteq> []) [b, n]))
      in if q = [] then n else q)"

definition cacheKeyOf :: "string \<Rightarrow> string" where
  "cacheKeyOf q = ''USDA::'' @ toLowerCase q"

text \<open>\<^verbatim>\<open>(brand ? hits.find(h => h.dataType === 'Branded') : null) || hits[0]\<close>, for a
  non-empty list of candidates.\<close>

definition pickHit :: "string \<Rightarrow> Hit \<Rightarrow> Hit list \<Rightarrow> Hit" where
  "pickHit b h hs =
     (if b \<noteq> [] then
        (case find (\<lambda>x. dataType x = Some ''Branded'') (h # hs) of
           Some x \<Rightarrow> x
         | None \<Rightarrow> h)
      else h)"

definition truthyText :: "string option \<Rightarrow> bool" where
  "truthyText s = (case s of None \<Rightarrow> False | Some t \<Rightarrow> t \<noteq> [])"

text \<open>The record \<^verbatim>\<open>out\<close>; \<^verbatim>\<open>Math.round\<close> rounds a half upwards.\<close>

definition buildOut :: "string \<Rightarrow> Hit \<Rightarrow> Detail \<Rightarrow> NutritionInfo" where
  "buildOut b pick d =
     (let nutrients =
            (case labelNutrients d of
               Some lab \<Rightarrow> fromLabel lab
             | None \<Rightarrow> fromNutrients (case foodNutrients d of None \<Rightarrow> [] | Some l \<Rightarrow> l))
      in \<lparr>source = ''usda'',
          matchType =
            (if b \<noteq> [] then
               (if includes_str (toLowerCase (orEmpty (brandOwner d))) (toLowerCase b)
                then ''exact'' else ''likely'')
             else ''generic''),
          serving_desc =
            (if truthyText (householdServingFullText d) then orEmpty (householdServingFullText d)
             else if truthyText (servingSize d) \<and> truthyText (servingSizeUnit d)
               then orEmpty (servingSize d) @ '' '' @ orEmpty (servingSizeUnit d)
             else ''100 g''),
          calories_kcal = \<lfloor>calories nutrients + 1 / 2\<rfloor>,
          carbs_g = \<lfloor>carbs nutrients + 1 / 2\<rfloor>,
          sugar_g = \<lfloor>sugars nutrients + 1 / 2\<rfloor>,
          raw_name =
            (if truthyText (d_description d) then orEmpty (d_description d)
             else if truthyText (description pick) then orEmpty (description pick)
             else [])\<rparr>)"

definition serverError :: Response where
  "serverError = errorResponse 500 ''server_error''"

text \<open>
  The part of the handler behind the validation, for the trimmed name \<open>n\<close> and brand
  \<open>b\<close>: the cache lookup, then on a miss the search, the choice of a candidate, the
  detail, and the store. Every exception below ends in the \<^verbatim>\<open>catch\<close>.
\<close>

definition lookup :: "Env \<Rightarrow> string \<Rightarrow> string \<Rightarrow> Cache \<Rightarrow> Response \<times> Cache \<times> UpstreamCall list" where
  "lookup env b n cache =
     (let q = lookupQuery b n;
          cacheKey = cacheKeyOf q;
          (cached, cache1) = get (now_get env) cache cacheKey
      in case cached of
           Some d \<Rightarrow> (okResponse d, cache1, [])
         | None \<Rightarrow>
             (case searchFoods env q of
                SearchThrows \<Rightarrow> (serverError, cache1, [SearchCall q])
              | SearchNotOk \<Rightarrow> (serverError, cache1, [SearchCall q])
              | SearchBody foods \<Rightarrow>
                  (case (case foods of None \<Rightarrow> [] | Some hs \<Rightarrow> hs) of
                     [] \<Rightarrow> (errorResponse 404 ''not_found'', cache1, [SearchCall q])
                   | h # hs \<Rightarrow>
                       (let pick = pickHit b h hs
                        in case foodDetail env (fdcId pick) of
                             DetailThrows \<Rightarrow>
                               (serverError, cache1, [SearchCall q, DetailCall (fdcId pick)])
                           | DetailBody d \<Rightarrow>
                               (let out = buildOut b pick d
                                in (okResponse out,
                                    set_cache (now_set env) cache1 cacheKey out,
                                    [SearchCall q, DetailCall (fdcId pick)]))))))"

text \<open>
  \<^verbatim>\<open>app.post('/nutrition', ...)\<close>: the response, the cache it leaves and the upstream calls
  it made, in order.
\<close>

definition nutrition :: "Env \<Rightarrow> Body \<Rightarrow> Cache \<Rightarrow> Response \<times> Cache \<times> UpstreamCall list" where
  "nutrition env req cache =
     (if \<not> truthyText (USDA_KEY env)
      then (errorResponse 500 ''USDA_API_KEY missing in .env'', cache, [])
      else (case trimmedField (name req) of
              Inl e \<Rightarrow> (serverError, cache, [])
            | Inr n \<Rightarrow>
                (case trimmedField (brand req) of
                   Inl e \<Rightarrow> (serverError, cache, [])
                 | Inr b \<Rightarrow>
                     (if n = [] then (errorResponse 400 ''name required'', cache, [])
                      else lookup env b n cache))))"

text \<open>A blank field, as the interface describes it: missing, empty, or only white space.\<close>

definition blank :: "json option \<Rightarrow> bool" where
  "blank v = (case v of None \<Rightarrow> True | Some (JString s) \<Rightarrow> trim s = [] | Some _ \<Rightarrow> False)"

subsection \<open>Sample requests\<close>

text \<open>An environment with key \<open>k\<close> and clock reading \<open>t\<close> whose upstream calls all fail.\<close>

definition downEnv :: "string option \<Rightarrow> int \<Rightarrow> Env" where
  "downEnv k t =
     \<lparr>USDA_KEY = k, searchFoods = (\<lambda>q. SearchThrows), foodDetail = (\<lambda>i. DetailThrows),
      now_get = t, now_set = t\<rparr>"

definition oatsRequest :: Body where
  "oatsRequest = \<lparr>name = Some (JString ''oats''), brand = None\<rparr>"

definition blankRequest :: Body where
  "blankRequest = \<lparr>name = Some (JString ''  ''), brand = None\<rparr>"

definition oatsInfo :: NutritionInfo where
  "oatsInfo =
     \<lparr>source = ''usda'', matchType = ''generic'', serving_desc = ''100 g'',
      calories_kcal = 389, carbs_g = 66, sugar_g = 1, raw_name = ''Oats''\<rparr>"

text \<open>A cache holding one entry, stored at time 0 for the query "oats".\<close>

definition oatsCache :: Cache where
  "oatsCache = [''USDA::oats'' \<mapsto> (oatsInfo, 0)]"

section \<open>JSON text\<close>

text \<open>
  \<^verbatim>\<open>JSON.parse\<close> is the platform's, not this program's; it is modelled after the JSON
  grammar: a scan of the text into tokens, then a stack machine over the tokens. A string
  keeps the bytes of the text; an escape \<^verbatim>\<open>\uXXXX\<close> becomes the UTF-8 bytes of its code unit.
\<close>

datatype token =
    TLBrace | TRBrace | TLBrack | TRBrack | TComma | TColon
  | TString string | TNumber int int | TTrue | TFalse | TNull

definition isDigit :: "char \<Rightarrow> bool" where
  "isDigit c = (48 \<le> (of_char c :: nat) \<and> (of_char c :: nat) \<le> 57)"

definition digitsValue :: "string \<Rightarrow> int" where
  "digitsValue ds = foldl (\<lambda>v c. 10 * v + (int (of_char c) - 48)) 0 ds"

definition hexDigit :: "char \<Rightarrow> nat option" where
  "hexDigit c =
     (let n = (of_char c :: nat)
      in if 48 \<le> n \<and> n \<le> 57 then Some (n - 48)
         else if 65 \<le> n \<and> n \<le> 70 then Some (n - 55)
         else if 97 \<le> n \<and> n \<le> 102 then Some (n - 87)
         else None)"

definition utf8 :: "nat \<Rightarrow> string" where
  "utf8 v =
     (if v < 128 then [char_of v]
      else if v < 2048 then [char_of (192 + v div 64), char_of (128 + v mod 64)]
      else [char_of (224 + v div 4096), char_of (128 + (v div 64) mod 64),
            char_of (128 + v mod 64)])"

text \<open>The character an escape letter stands for.\<close>

definition unescape :: "char \<Rightarrow> char option" where
  "unescape c =
     (if c = CHR 0x22 \<or> c = backslash \<or> c = CHR ''/'' then Some c
      else if c = CHR ''b'' then Some (CHR 0x08)
      else if c = CHR ''f'' then Some (CHR 0x0C)
      else if c = CHR ''n'' then Some (CHR 0x0A)
      else if c = CHR ''r'' then Some (CHR 0x0D)
      else if c = CHR ''t'' then Some (CHR 0x09)
      else None)"

datatype str_state = SPlain | SEscape | SHex nat nat

text \<open>
  A string literal behind its opening quote: the characters read so far (last first) and
  the text to read; the result is the string and the text behind the closing quote.
\<close>

fun lexString :: "str_state \<Rightarrow> string \<Rightarrow> string \<Rightarrow> (string \<times> string) option" where
  "lexString st acc [] = None"
| "lexString SPlain acc (c # cs) =
     (if c = CHR 0x22 then Some (rev acc, cs)
      else if c = backslash then lexString SEscape acc cs
      else if (of_char c :: nat) < 32 then None
      else lexString SPlain (c # acc) cs)"
| "lexString SEscape acc (c # cs) =
     (if c = CHR ''u'' then lexString (SHex 4 0) acc cs
      else (case unescape c of
              None \<Rightarrow> None
            | Some d \<Rightarrow> lexString SPlain (d # acc) cs))"
| "lexString (SHex k v) acc (c # cs) =
     (case hexDigit c of
        None \<Rightarrow> None
      | Some h \<Rightarrow>
          (if k \<le> 1 then lexString SPlain (rev (utf8 (16 * v + h)) @ acc) cs
           else lexString (SHex (k - 1) (16 * v + h)) acc cs))"

text \<open>
  A number literal: an optional minus, an integer part without a leading zero, an
  optional fraction and an optional exponent. The value is mantissa and decimal exponent.
\<close>

definition parseNumber :: "string \<Rightarrow> (int \<times> int) option" where
  "parseNumber s =
     (let neg = (s \<noteq> [] \<and> hd s = CHR ''-'');
          s1 = (if neg then tl s else s);
          ip = takeWhile isDigit s1;
          s2 = dropWhile isDigit s1;
          hasFrac = (s2 \<noteq> [] \<and> hd s2 = CHR ''.'');
          fp = (if hasFrac then takeWhile isDigit (tl s2) else []);
          s3 = (if hasFrac then dropWhile isDigit (tl s2) else s2);
          hasExp = (s3 \<noteq> [] \<and> (hd s3 = CHR ''e'' \<or> hd s3 = CHR ''E''));
          s4 = (if hasExp then tl s3 else []);
          expNeg = (s4 \<noteq> [] \<and> hd s4 = CHR ''-'');
          s5 = (if s4 \<noteq> [] \<and> (hd s4 = CHR ''-'' \<or> hd s4 = CHR ''+'') then tl s4 else s4);
          ep = takeWhile isDigit s5;
          rest = (if hasExp then dropWhile isDigit s5 else s3)
      in if ip = [] \<or> (length ip > 1 \<and> hd ip = CHR ''0'') \<or> (hasFrac \<and> fp = []) \<or>
            (hasExp \<and> ep = []) \<or> rest \<noteq> []
         then None
         else Some ((if neg then - 1 else 1) * digitsValue (ip @ fp),
                    (if expNeg then - 1 else 1) * digitsValue ep - int (length fp)))"

definition isJsonSpace :: "char \<Rightarrow> bool" where
  "isJsonSpace c = ((of_char c :: nat) \<in> {9, 10, 13, 32})"

definition isNumChar :: "char \<Rightarrow> bool" where
  "isNumChar c = (isDigit c \<or> c \<in> set ''+-.eE'')"

lemma lexString_length:
  "lexString st acc cs = Some (s, rest) \<Longrightarrow> length rest < Suc (length cs)"
proof (induction st acc cs rule: lexString.induct)
  case (1 st acc)
  then show ?case by simp
next
  case (2 acc c cs)
  then show ?case by (auto split: if_splits)
next
  case (3 acc c cs)
  then show ?case by (auto split: if_splits option.splits)
next
  case (4 k v acc c cs)
  then show ?case by (auto split: if_splits option.splits)
qed

text \<open>The scan of the text into tokens (the tokens read so far are kept last first).\<close>

function tokenize :: "token list \<Rightarrow> string \<Rightarrow> token list option" where
  "tokenize acc [] = Some (rev acc)"
| "tokenize acc (c # cs) =
     (if isJsonSpace c then tokenize acc cs
      else if c = CHR ''{'' then tokenize (TLBrace # acc) cs
      else if c = CHR ''}'' then tokenize (TRBrace # acc) cs
      else if c = CHR ''['' then tokenize (TLBrack # acc) cs
      else if c = CHR '']'' then tokenize (TRBrack # acc) cs
      else if c = CHR '','' then tokenize (TComma # acc) cs
      else if c = CHR '':'' then tokenize (TColon # acc) cs
      else if c = CHR 0x22 then
        (case lexString SPlain [] cs of
           None \<Rightarrow> None
         | Some (s, rest) \<Rightarrow> tokenize (TString s # acc) rest)
      else if c = CHR ''t'' then
        (if take 3 cs = ''rue'' then tokenize (TTrue # acc) (drop 3 cs) else None)
      else if c = CHR ''f'' then
        (if take 4 cs = ''alse'' then tokenize (TFalse # acc) (drop 4 cs) else None)
      else if c = CHR ''n'' then
        (if take 3 cs = ''ull'' then tokenize (TNull # acc) (drop 3 cs) else None)
      else if isDigit c \<or> c = CHR ''-'' then
        (case parseNumber (c # takeWhile isNumChar cs) of
           None \<Rightarrow> None
         | Some (m, e) \<Rightarrow> tokenize (TNumber m e # acc) (dropWhile isNumChar cs))
      else None)"
  by pat_completeness auto
termination
  apply (relation "measure (\<lambda>(acc, s). length s)")
  apply simp_all
  subgoal for c cs x2 x y
    using lexString_length [of SPlain "[]" cs x y] by simp
  subgoal for c cs x2 x y
    by (rule le_imp_less_Suc) (rule length_dropWhile_le)
  done


text \<open>
  The stack machine. A frame is an array with the elements read so far, an object with the
  members read so far, or the key of a member whose value is being read.
\<close>

datatype frame = FArray "json list" | FObject "(string \<times> json) list" | FMember string

datatype pstate =
    PValue
  | PFirstElem
  | PFirstKey
  | PKey
  | PColon string
  | PAfter
  | PDone json

text \<open>A value is complete: it is the result, an element, or the value of a member (a
  repeated key keeps its place and takes the later value).\<close>

fun complete :: "json \<Rightarrow> frame list \<Rightarrow> (frame list \<times> pstate) option" where
  "complete v [] = Some ([], PDone v)"
| "complete v (FArray es # st) = Some (FArray (es @ [v]) # st, PAfter)"
| "complete v (FMember k # FObject ms # st) = Some (FObject (AList.update k v ms) # st, PAfter)"
| "complete v st = None"

text \<open>The start of a value.\<close>

fun startValue :: "token \<Rightarrow> frame list \<Rightarrow> (frame list \<times> pstate) option" where
  "startValue TLBrack st = Some (FArray [] # st, PFirstElem)"
| "startValue TLBrace st = Some (FObject [] # st, PFirstKey)"
| "startValue (TString s) st = complete (JString s) st"
| "startValue (TNumber m e) st = complete (JNumber m e) st"
| "startValue TTrue st = complete (JBool True) st"
| "startValue TFalse st = complete (JBool False) st"
| "startValue TNull st = complete JNull st"
| "startValue t st = None"

fun pstep :: "pstate \<Rightarrow> token \<Rightarrow> frame list \<Rightarrow> (frame list \<times> pstate) option" where
  "pstep PValue t st = startValue t st"
| "pstep PFirstElem TRBrack (FArray es # st) = complete (JArray es) st"
| "pstep PFirstElem t st = startValue t st"
| "pstep PFirstKey TRBrace (FObject ms # st) = complete (JObject ms) st"
| "pstep PFirstKey (TString k) st = Some (st, PColon k)"
| "pstep PKey (TString k) st = Some (st, PColon k)"
| "pstep (PColon k) TColon st = Some (FMember k # st, PValue)"
| "pstep PAfter TComma (FArray es # st) = Some (FArray es # st, PValue)"
| "pstep PAfter TRBrack (FArray es # st) = complete (JArray es) st"
| "pstep PAfter TComma (FObject ms # st) = Some (FObject ms # st, PKey)"
| "pstep PAfter TRBrace (FObject ms # st) = complete (JObject ms) st"
| "pstep ps t st = None"

fun parseTokens :: "frame list \<Rightarrow> pstate \<Rightarrow> token list \<Rightarrow> json option" where
  "parseTokens st ps [] = (case ps of PDone v \<Rightarrow> Some v | _ \<Rightarrow> None)"
| "parseTokens st ps (t # ts) =
     (case pstep ps t st of
        None \<Rightarrow> None
      | Some (st', ps') \<Rightarrow> parseTokens st' ps' ts)"

definition JSON_parse :: "string \<Rightarrow> js_error + json" where
  "JSON_parse s =
     (case tokenize [] s of
        None \<Rightarrow> Inl SyntaxError
      | Some ts \<Rightarrow>
          (case parseTokens [] PValue ts of
             None \<Rightarrow> Inl SyntaxError
           | Some v \<Rightarrow> Inr v))"

section \<open>Profile store and profile state\<close>

text \<open>
  \<^verbatim>\<open>loadProfile()\<close>, for the value \<^verbatim>\<open>localStorage.getItem("allergyguardai_profile")\<close> returns
  (\<open>None\<close> is \<^verbatim>\<open>null\<close>: nothing stored): the stored text, or \<^verbatim>\<open>"{}"\<close> when it is missing or
  empty, is parsed; an exception of the parser is caught and gives the empty object.
\<close>

definition loadProfile :: "string option \<Rightarrow> json" where
  "loadProfile stored =
     (case JSON_parse (case stored of None \<Rightarrow> ''{}'' | Some s \<Rightarrow> if s = [] then ''{}'' else s) of
        Inl e \<Rightarrow> JObject []
      | Inr v \<Rightarrow> v)"











subsection \<open>Sample stored texts\<close>



section \<open>Properties\<close>

subsection \<open>Badge classifier\<close>

text \<open>
  C3. For every number of carbohydrate grams the classifier answers "Avoid" above 30,
  "Limit" from 15 to 30 inclusive and "Eat" below 15; so 10 gives "Eat", 15 and 30 give
  "Limit" and 31 gives "Avoid".
\<close>

theorem classifyCarbs_thresholds:
  "(grams > 30 \<longrightarrow> label (classifyCarbs grams) = ''Avoid'') \<and>
   (15 \<le> grams \<and> grams \<le> 30 \<longrightarrow> label (classifyCarbs grams) = ''Limit'') \<and>
   (grams < 15 \<longrightarrow> label (classifyCarbs grams) = ''Eat'') \<and>
   label (classifyCarbs 10) = ''Eat'' \<and>
   label (classifyCarbs 15) = ''Limit'' \<and>
   label (classifyCarbs 30) = ''Limit'' \<and>
   label (classifyCarbs 31) = ''Avoid''"
  by (simp add: classifyCarbs_def)

theorem classifyCarbs_thresholds_witness:
  "label (classifyCarbs 42) = ''Avoid'' \<and> label (classifyCarbs 22.5) = ''Limit'' \<and>
   label (classifyCarbs 14.9) = ''Eat''"
  using classifyCarbs_thresholds [of 42] classifyCarbs_thresholds [of "22.5"]
    classifyCarbs_thresholds [of "14.9"]
  by simp

subsection \<open>Risk detection\<close>

lemma set_fold_uniq:
  "set (fold (\<lambda>x acc. if x \<in> set acc then acc else acc @ [x]) xs acc) = set acc \<union> set xs"
  by (induction xs arbitrary: acc) auto

lemma set_uniq: "set (uniq xs) = set xs"
  by (simp add: uniq_def set_fold_uniq)

lemma flag_not_null: "flag profile k \<Longrightarrow> profile \<noteq> JNull"
  by (auto simp: flag_def)

lemma selectedLabels_member:
  assumes "a \<in> set ALLERGENS" "lbl \<in> set (labels a)" "flag profile (key a)"
  shows "\<exists>sel. selectedLabels profile = Inr sel \<and> lbl \<in> set sel"
  using assms flag_not_null [OF assms(3)] by (auto simp: selectedLabels_def)

lemma riskFor_text_hit:
  assumes "selectedLabels profile = Inr sel" "lbl \<in> set sel"
    "includes_str (toLowerCase (orEmpty (ingredients_text p))) (toLowerCase lbl)"
  shows "\<exists>r. riskFor profile (Some p) = Inr r \<and> hasRisk r \<and> lbl \<in> set (hits r)"
proof -
  let ?ing = "toLowerCase (orEmpty (ingredients_text p))"
  let ?textHits = "filter (\<lambda>l. includes_str ?ing (toLowerCase l)) sel"
  obtain tagHits where r: "riskFor profile (Some p) =
      Inr \<lparr>hits = uniq (?textHits @ tagHits),
           hasRisk = (length (uniq (?textHits @ tagHits)) > 0)\<rparr>"
    using assms(1) by (simp add: riskFor_def Let_def)
  have "lbl \<in> set (uniq (?textHits @ tagHits))"
    using assms(2,3) by (simp add: set_uniq)
  moreover from this have "length (uniq (?textHits @ tagHits)) > 0"
    by (cases "uniq (?textHits @ tagHits)") auto
  ultimately show ?thesis using r by simp
qed

text \<open>The spec's example: "Contains WHEY protein" with milk selected.\<close>

lemma riskFor_whey_example:
  "riskFor (JObject [(''milk'', JBool True)])
     (Some \<lparr>code = ''0'', product_name = None, brands = None,
            ingredients_text = Some ''Contains WHEY protein'', allergens_tags = None\<rparr>)
   = Inr \<lparr>hits = [''whey''], hasRisk = True\<rparr>"
  by code_simp

text \<open>
  C5. The catalog has 12 categories. For each of them and each of its keyword variants, a
  product whose ingredient text is that keyword, in any letter case, is reported as a risk
  under a profile that selects the category, and the keyword is among the hits.
\<close>

theorem riskFor_keyword_detected:
  assumes "a \<in> set ALLERGENS" and "kw \<in> set (labels a)"
    and "toLowerCase text = toLowerCase kw"
    and "flag profile (key a)"
  shows "length ALLERGENS = 12 \<and>
         (\<exists>r. riskFor profile (Some (p\<lparr>ingredients_text := Some text\<rparr>)) = Inr r \<and>
              hasRisk r \<and> kw \<in> set (hits r))"
proof -
  obtain sel where sel: "selectedLabels profile = Inr sel" "kw \<in> set sel"
    using selectedLabels_member [OF assms(1,2,4)] by blast
  have "includes_str
          (toLowerCase (orEmpty (ingredients_text (p\<lparr>ingredients_text := Some text\<rparr>))))
          (toLowerCase kw)"
    using assms(3) by (simp add: orEmpty_def includes_str_def)
  from riskFor_text_hit [OF sel this] show ?thesis by (simp add: ALLERGENS_def)
qed

theorem riskFor_keyword_detected_witness:
  "length ALLERGENS = 12 \<and>
   (\<exists>r. riskFor (JObject [(''milk'', JBool True)])
          (Some \<lparr>code = ''0'', product_name = None, brands = None,
                 ingredients_text = Some ''WHEY'', allergens_tags = None\<rparr>) = Inr r \<and>
        hasRisk r \<and> ''whey'' \<in> set (hits r))"
proof -
  let ?a = "\<lparr>key = ''milk'', labels = [''milk'', ''dairy'', ''casein'', ''whey'', ''lactose'']\<rparr>"
  have 1: "?a \<in> set ALLERGENS" by (simp add: ALLERGENS_def)
  have 2: "''whey'' \<in> set (labels ?a)" by simp
  have 3: "toLowerCase ''WHEY'' = toLowerCase ''whey''" by code_simp
  have 4: "flag (JObject [(''milk'', JBool True)]) (key ?a)" by (simp add: flag_def)
  from riskFor_keyword_detected [OF 1 2 3 4,
      of "\<lparr>code = ''0'', product_name = None, brands = None,
           ingredients_text = None, allergens_tags = None\<rparr>"]
  show ?thesis by simp
qed

subsection \<open>Highlighting\<close>

lemma alternatives_ne: "alternatives s \<noteq> []"
proof (cases s)
  case Nil
  then show ?thesis by simp
next
  case (Cons c cs)
  show ?thesis
  proof (cases "c = backslash \<and> c \<noteq> CHR ''|''")
    case True
    then show ?thesis
    proof (cases cs)
      case Nil
      with True Cons show ?thesis by simp
    next
      case (Cons d ds)
      with True \<open>s = c # cs\<close> show ?thesis by (simp split: list.split)
    qed
  next
    case False
    show ?thesis
    proof (cases "c = CHR ''|''")
      case True
      with Cons show ?thesis by simp
    next
      case bar: False
      with False have "c \<noteq> backslash" by blast
      with bar Cons show ?thesis by (cases "alternatives cs") simp_all
    qed
  qed
qed

lemma special_bar: "regexSpecial (CHR ''|'')" and special_backslash: "regexSpecial backslash"
  by (simp_all add: regexSpecial_def)

lemma alternatives_escape:
  "alternatives (escapeRegExp n @ s) = (n @ hd (alternatives s)) # tl (alternatives s)"
proof (induction n)
  case Nil
  show ?case using alternatives_ne [of s] by (simp add: escapeRegExp_def)
next
  case (Cons c n)
  have e: "escapeRegExp (c # n) = (if regexSpecial c then [backslash, c] else [c]) @ escapeRegExp n"
    by (simp add: escapeRegExp_def)
  show ?case
  proof (cases "regexSpecial c")
    case True
    have "backslash \<noteq> CHR ''|''" by (simp add: backslash_def)
    then show ?thesis using True Cons.IH by (simp add: e)
  next
    case False
    then have "c \<noteq> CHR ''|''" "c \<noteq> backslash"
      using special_bar special_backslash by auto
    then show ?thesis using False Cons.IH by (simp add: e)
  qed
qed

lemma alternatives_join:
  "ns \<noteq> [] \<Longrightarrow> alternatives (join ''|'' (map escapeRegExp ns)) = ns"
proof (induction ns rule: induct_list012)
  case 1 then show ?case by simp
next
  case (2 n)
  show ?case using alternatives_escape [of n "[]"] by simp
next
  case (3 x y zs)
  then have "alternatives (join ''|'' (map escapeRegExp (y # zs))) = y # zs" by simp
  then show ?case using alternatives_escape [of x "CHR ''|'' # join ''|'' (map escapeRegExp (y # zs))"]
    by simp
qed

lemma replaceAll_no_match:
  "(\<forall>i \<le> length rest. matchAt lits (if i = 0 then prev else Some (rest ! (i - 1))) (drop i rest) = None)
   \<Longrightarrow> replaceAll lits prev 0 rest = rest"
proof (induction rest arbitrary: prev)
  case Nil
  then show ?case by simp
next
  case (Cons c cs)
  from Cons.prems have m0: "matchAt lits prev (c # cs) = None"
    by (metis drop0 le0)
  have "\<forall>i \<le> length cs. matchAt lits (if i = 0 then Some c else Some (cs ! (i - 1))) (drop i cs) = None"
  proof (intro allI impI)
    fix i assume "i \<le> length cs"
    then have "Suc i \<le> length (c # cs)" by simp
    from Cons.prems [rule_format, OF this] show "matchAt lits (if i = 0 then Some c else Some (cs ! (i - 1))) (drop i cs) = None"
      by (cases i) auto
  qed
  from Cons.IH [OF this] show ?case using m0 by simp
qed

lemma matchAt_occurs:
  assumes "i \<le> length text" "matchAt lits (charBefore text i) (drop i text) = Some n"
  shows "\<exists>lit \<in> set lits. occursAt text i lit"
proof -
  from assms(2) obtain lit where b: "wordBoundary (charBefore text i) (headOpt (drop i text))"
    and f: "find (altMatches (charBefore text i) (drop i text)) lits = Some lit"
    by (auto simp: matchAt_def split: if_splits)
  from f have mem: "lit \<in> set lits" and am: "altMatches (charBefore text i) (drop i text) lit"
    by (auto simp: find_Some_iff)
  let ?L = "length lit"
  from am have eq: "toLowerCase (take ?L (drop i text)) = toLowerCase lit"
    by (simp add: altMatches_def)
  then have tl: "length (take ?L (drop i text)) = ?L"
    by (metis length_map toLowerCase_def)
  then have len: "i + ?L \<le> length text" using assms(1) by auto
  have h: "headOpt (drop j text) = charAt text j" for j
  proof (cases "j < length text")
    case True
    then show ?thesis by (simp add: headOpt_def charAt_def Cons_nth_drop_Suc [symmetric])
  next
    case False
    then show ?thesis by (simp add: headOpt_def charAt_def)
  qed
  have "(if lit = [] then charBefore text i else Some (last (take ?L (drop i text)))) = charBefore text (i + ?L)"
  proof (cases "lit = []")
    case True then show ?thesis by simp
  next
    case False
    then have "?L > 0" by simp
    moreover from this len have "i < length text" by linarith
    ultimately have "take ?L (drop i text) \<noteq> []" by simp
    then have "last (take ?L (drop i text)) = take ?L (drop i text) ! (length (take ?L (drop i text)) - 1)"
      by (rule last_conv_nth)
    also have "\<dots> = take ?L (drop i text) ! (?L - 1)"
      using tl by simp
    also have "\<dots> = text ! (i + (?L - 1))"
      using len \<open>?L > 0\<close> by simp
    also have "i + (?L - 1) = i + ?L - 1"
      using \<open>?L > 0\<close> by arith
    finally have "last (take ?L (drop i text)) = text ! (i + ?L - 1)" .
    moreover have "i + ?L - 1 < length text" using len \<open>?L > 0\<close> by arith
    ultimately show ?thesis using False \<open>?L > 0\<close> by (simp add: charBefore_def charAt_def)
  qed
  then have "wordBoundary (charBefore text (i + ?L)) (charAt text (i + ?L))"
    using am by (simp add: altMatches_def h add.commute)
  then show ?thesis using mem eq len b by (auto simp: occursAt_def h)
qed

lemma highlight_unchanged:
  assumes "needles \<noteq> []" and "\<forall>i lit. lit \<in> set needles \<longrightarrow> \<not> occursAt text i lit"
  shows "highlight text needles = text"
proof (cases "text = []")
  case True then show ?thesis by (simp add: highlight_def)
next
  case False
  have "\<forall>i \<le> length text. matchAt needles (if i = 0 then None else Some (text ! (i - 1))) (drop i text) = None"
  proof (intro allI impI)
    fix i assume i: "i \<le> length text"
    have cb: "(if i = 0 then None else Some (text ! (i - 1))) = charBefore text i"
      using i by (auto simp: charBefore_def charAt_def)
    show "matchAt needles (if i = 0 then None else Some (text ! (i - 1))) (drop i text) = None"
    proof (rule ccontr)
      assume "matchAt needles (if i = 0 then None else Some (text ! (i - 1))) (drop i text) \<noteq> None"
      then obtain n where "matchAt needles (charBefore text i) (drop i text) = Some n"
        unfolding cb by auto
      from matchAt_occurs [OF i this] assms(2) show False by blast
    qed
  qed
  from replaceAll_no_match [OF this] show ?thesis
    using False assms(1) by (simp add: highlight_def alternatives_join)
qed

lemma highlight_empty_text: "highlight [] needles = []"
  by (simp add: highlight_def)

lemma highlight_milk_example:
  "highlight ''Contains milk and soy'' [''milk''] = ''Contains '' @ mark ''milk'' @ '' and soy''"
  by code_simp

text \<open>
  C6. The highlighter is to wrap the word-boundary occurrences of the keywords and leave
  everything else as it is; with no keyword at all the text is to come back unchanged.
  With an empty list the pattern is \<^verbatim>\<open>\b()\b\<close>, which matches the empty string at every
  word boundary, and an empty marker is put at each of them.
\<close>

theorem highlight_no_needles_marks_boundaries:
  "highlight ''Contains milk and soy'' [] =
     mark [] @ ''Contains'' @ mark [] @ '' '' @ mark [] @ ''milk'' @ mark [] @ '' '' @
     mark [] @ ''and'' @ mark [] @ '' '' @ mark [] @ ''soy'' @ mark [] \<and>
   highlight ''Contains milk and soy'' [] \<noteq> ''Contains milk and soy''"
  by code_simp

text \<open>
  C10. Risk detection reads a keyword anywhere in the ingredient text, letter case
  ignored, while the highlighter changes the text only where a keyword stands between word
  boundaries. With the ingredient text "milky" and milk selected, a risk is reported and
  the highlighted text is the text itself.
\<close>

theorem riskFor_substring_highlight_word:
  "(selectedLabels profile = Inr sel \<and> lbl \<in> set sel \<and>
    includes_str (toLowerCase (orEmpty (ingredients_text p))) (toLowerCase lbl) \<longrightarrow>
      (\<exists>r. riskFor profile (Some p) = Inr r \<and> hasRisk r \<and> lbl \<in> set (hits r))) \<and>
   (needles \<noteq> [] \<and> (\<forall>i lit. lit \<in> set needles \<longrightarrow> \<not> occursAt text i lit) \<longrightarrow>
      highlight text needles = text) \<and>
   selectedLabels (JObject [(''milk'', JBool True)]) =
     Inr [''milk'', ''dairy'', ''casein'', ''whey'', ''lactose''] \<and>
   riskFor (JObject [(''milk'', JBool True)])
     (Some \<lparr>code = ''0'', product_name = None, brands = None,
            ingredients_text = Some ''milky'', allergens_tags = None\<rparr>)
     = Inr \<lparr>hits = [''milk''], hasRisk = True\<rparr> \<and>
   highlight ''milky'' [''milk'', ''dairy'', ''casein'', ''whey'', ''lactose''] = ''milky''"
proof (intro conjI)
  show "selectedLabels profile = Inr sel \<and> lbl \<in> set sel \<and>
    includes_str (toLowerCase (orEmpty (ingredients_text p))) (toLowerCase lbl) \<longrightarrow>
      (\<exists>r. riskFor profile (Some p) = Inr r \<and> hasRisk r \<and> lbl \<in> set (hits r))"
    using riskFor_text_hit by blast
  show "needles \<noteq> [] \<and> (\<forall>i lit. lit \<in> set needles \<longrightarrow> \<not> occursAt text i lit) \<longrightarrow>
      highlight text needles = text"
    using highlight_unchanged by blast
  show "selectedLabels (JObject [(''milk'', JBool True)]) =
     Inr [''milk'', ''dairy'', ''casein'', ''whey'', ''lactose'']"
    by code_simp
  show "riskFor (JObject [(''milk'', JBool True)])
     (Some \<lparr>code = ''0'', product_name = None, brands = None,
            ingredients_text = Some ''milky'', allergens_tags = None\<rparr>)
     = Inr \<lparr>hits = [''milk''], hasRisk = True\<rparr>"
    by code_simp
  show "highlight ''milky'' [''milk'', ''dairy'', ''casein'', ''whey'', ''lactose''] = ''milky''"
    by code_simp
qed

theorem riskFor_substring_highlight_word_witness:
  "(\<exists>r. riskFor (JObject [(''milk'', JBool True)])
          (Some \<lparr>code = ''0'', product_name = None, brands = None,
                 ingredients_text = Some ''milky'', allergens_tags = None\<rparr>) = Inr r \<and>
        hasRisk r \<and> ''milk'' \<in> set (hits r)) \<and>
   highlight ''milky'' [''milk'', ''dairy'', ''casein'', ''whey'', ''lactose''] = ''milky''"
proof -
  let ?profile = "JObject [(''milk'', JBool True)]"
  let ?p = "\<lparr>code = ''0'', product_name = None, brands = None,
             ingredients_text = Some ''milky'', allergens_tags = None\<rparr>"
  let ?ls = "[''milk'', ''dairy'', ''casein'', ''whey'', ''lactose'']"
  have sel: "selectedLabels ?profile = Inr ?ls" by code_simp
  have inc: "includes_str (toLowerCase (orEmpty (ingredients_text ?p))) (toLowerCase ''milk'')"
    by code_simp
  have fin: "\<forall>i \<in> set [0..<6]. \<forall>lit \<in> set ?ls. \<not> occursAt ''milky'' i lit"
    by code_simp
  have no: "\<forall>i lit. lit \<in> set ?ls \<longrightarrow> \<not> occursAt ''milky'' i lit"
  proof (intro allI impI)
    fix i lit assume l: "lit \<in> set ?ls"
    show "\<not> occursAt ''milky'' i lit"
    proof (cases "i < 6")
      case True
      then have "i \<in> set [0..<6]" by simp
      with fin l show ?thesis by blast
    next
      case False
      then show ?thesis by (simp add: occursAt_def)
    qed
  qed
  from riskFor_substring_highlight_word [of ?profile ?ls "''milk''" ?p ?ls "''milky''"] sel inc no
  show ?thesis by simp
qed

subsection \<open>Product search\<close>

lemma find_snoc:
  "find P (xs @ [x]) = (case find P xs of Some y \<Rightarrow> Some y | None \<Rightarrow> if P x then Some x else None)"
  by (induction xs) auto

lemma uniqInv_step:
  assumes "uniqInv xs m"
  shows "uniqInv (xs @ [x]) (addUnique x m)"
proof (cases "nameKey x \<noteq> [] \<and> map_of m (nameKey x) = None")
  case True
  then have new: "nameKey x \<notin> set (map fst m)"
    by (simp add: map_of_eq_None_iff)
  have au: "addUnique x m = m @ [(nameKey x, x)]"
    using True by (simp add: addUnique_def nameKey_def)
  have a: "map fst m = map nameKey (map snd m)" "distinct (map fst m)"
    "subseq (map snd m) xs" "set (map fst m) = set (map nameKey xs) - {[]}"
    "\<forall>u \<in> set (map snd m). find (\<lambda>c. nameKey c = nameKey u) xs = Some u"
    using assms unfolding uniqInv_def by blast+
  have "nameKey x \<notin> set (map nameKey xs)"
    using new True unfolding a(4) by blast
  then have nf: "find (\<lambda>c. nameKey c = nameKey x) xs = None"
    unfolding find_None_iff set_map by (metis imageI)
  have 1: "map fst (addUnique x m) = map nameKey (map snd (addUnique x m))"
    using a(1) by (simp add: au)
  have 2: "distinct (map fst (addUnique x m))"
    using a(2) new by (simp add: au)
  have 3: "subseq (map snd (addUnique x m)) (xs @ [x])"
    using list_emb_append_mono [OF a(3), of "[x]" "[x]"] by (simp add: au)
  have 4: "set (map fst (addUnique x m)) = set (map nameKey (xs @ [x])) - {[]}"
    using a(4) True by (auto simp: au)
  have 5: "\<forall>u \<in> set (map snd (addUnique x m)). find (\<lambda>c. nameKey c = nameKey u) (xs @ [x]) = Some u"
    using a(5) nf by (auto simp: au find_snoc)
  from 1 2 3 4 5 show ?thesis unfolding uniqInv_def by blast
next
  case False
  then have au: "addUnique x m = m"
    by (auto simp: addUnique_def nameKey_def)
  have a: "map fst m = map nameKey (map snd m)" "distinct (map fst m)"
    "subseq (map snd m) xs" "set (map fst m) = set (map nameKey xs) - {[]}"
    "\<forall>u \<in> set (map snd m). find (\<lambda>c. nameKey c = nameKey u) xs = Some u"
    using assms unfolding uniqInv_def by blast+
  have old: "nameKey x = [] \<or> nameKey x \<in> set (map fst m)"
    using False by (auto simp: map_of_eq_None_iff)
  have 3: "subseq (map snd m) (xs @ [x])"
    using a(3) by (rule subseq_rev_drop_many)
  have 4: "set (map fst m) = set (map nameKey (xs @ [x])) - {[]}"
    using a(4) old by auto
  have 5: "\<forall>u \<in> set (map snd m). find (\<lambda>c. nameKey c = nameKey u) (xs @ [x]) = Some u"
    using a(5) by (auto simp: find_snoc)
  from a(1,2) 3 4 5 show ?thesis unfolding uniqInv_def au by blast
qed

lemma uniqInv_fold: "uniqInv xs (fold addUnique xs [])"
proof (induction xs rule: rev_induct)
  case Nil
  show ?case by (simp add: uniqInv_def)
next
  case (snoc x xs)
  from uniqInv_step [OF snoc.IH, of x] show ?case by simp
qed


lemma nameKey_cands:
  assumes "c \<in> set (map toProduct (filter (nameMatches q) ups))"
  shows "\<exists>n. product_name c = Some n \<and> n \<noteq> [] \<and> nameKey c = n"
  using assms by (auto simp: nameMatches_def toProduct_def nameKey_def orEmpty_def split: option.splits)

lemma uniqueProds_props:
  fixes q ups
  defines "cands \<equiv> map toProduct (filter (nameMatches q) ups)"
  defines "us \<equiv> uniqueProds cands"
  shows "distinct (map product_name us)"
    and "subseq us cands"
    and "set (map product_name us) = set (map product_name cands)"
    and "\<forall>u \<in> set us. find (\<lambda>c. product_name c = product_name u) cands = Some u"
proof -
  let ?m = "fold addUnique cands []"
  have inv: "uniqInv cands ?m" by (rule uniqInv_fold)
  have us: "us = map snd ?m" by (simp add: us_def uniqueProds_def)
  have keys: "map nameKey us = map fst ?m"
    using inv by (simp add: uniqInv_def us)
  have sub: "subseq us cands"
    using inv by (simp add: uniqInv_def us)
  then have incl: "set us \<subseteq> set cands"
    using list_emb_set [of "(=)" us cands] by auto
  have nk: "nameKey c = nameKey c' \<longleftrightarrow> product_name c = product_name c'"
    if "c \<in> set cands" "c' \<in> set cands" for c c'
    using nameKey_cands [of c q ups] nameKey_cands [of c' q ups] that
    by (auto simp: cands_def)
  have "distinct (map nameKey us)"
    using inv by (simp add: uniqInv_def keys)
  moreover have "map nameKey us = map orEmpty (map product_name us)"
    by (simp add: nameKey_def)
  ultimately show "distinct (map product_name us)"
    by (metis distinct_map)
  show "subseq us cands" by (rule sub)
  have ne: "[] \<notin> set (map nameKey cands)"
  proof
    assume "[] \<in> set (map nameKey cands)"
    then obtain c where "c \<in> set cands" "nameKey c = []" by auto
    with nameKey_cands [of c q ups] show False by (simp add: cands_def)
  qed
  have "set (map nameKey us) = set (map nameKey cands)"
    using inv ne unfolding uniqInv_def keys by blast
  then have cover: "nameKey ` set us = nameKey ` set cands" by simp
  show "set (map product_name us) = set (map product_name cands)"
  proof (intro equalityI subsetI)
    fix n assume "n \<in> set (map product_name us)"
    then show "n \<in> set (map product_name cands)" using incl by auto
  next
    fix n assume "n \<in> set (map product_name cands)"
    then obtain c where c: "c \<in> set cands" "product_name c = n" by auto
    then have "nameKey c \<in> nameKey ` set us" using cover by blast
    then obtain u where u: "u \<in> set us" "nameKey u = nameKey c" by auto
    then have "product_name u = product_name c" using nk c(1) incl by blast
    then have "n = product_name u" using c(2) by simp
    then show "n \<in> set (map product_name us)" using u(1) by simp
  qed
  show "\<forall>u \<in> set us. find (\<lambda>c. product_name c = product_name u) cands = Some u"
  proof
    fix u assume u: "u \<in> set us"
    have "\<forall>v \<in> set (map snd ?m). find (\<lambda>c. nameKey c = nameKey v) cands = Some v"
      using inv unfolding uniqInv_def by blast
    with u have "find (\<lambda>c. nameKey c = nameKey u) cands = Some u"
      unfolding us by blast
    moreover have "find (\<lambda>c. nameKey c = nameKey u) cands = find (\<lambda>c. product_name c = product_name u) cands"
      using nk u incl by (intro find_cong) auto
    ultimately show "find (\<lambda>c. product_name c = product_name u) cands = Some u" by simp
  qed
qed

text \<open>
  C4. For every upstream result list, the results of a search are candidates that passed
  the name filter, in upstream order, no two with the same display name, each the first
  candidate with its name, and at most 5; after a non-blank query they are the first 5 of
  the list that holds every candidate name once.
\<close>

theorem search_dedup_first_five:
  fixes q ups
  defines "cands \<equiv> map toProduct (filter (nameMatches q) ups)"
  defines "rs \<equiv> search q (OffJson (Some ups))"
  shows "length rs \<le> 5 \<and>
         distinct (map product_name rs) \<and>
         subseq rs cands \<and>
         (\<forall>r \<in> set rs. find (\<lambda>c. product_name c = product_name r) cands = Some r) \<and>
         (trim q \<noteq> [] \<longrightarrow>
            rs = take 5 (uniqueProds cands) \<and>
            distinct (map product_name (uniqueProds cands)) \<and>
            subseq (uniqueProds cands) cands \<and>
            set (map product_name (uniqueProds cands)) = set (map product_name cands))"
proof (cases "trim q = []")
  case True
  then show ?thesis by (simp add: rs_def search_def)
next
  case False
  let ?us = "uniqueProds cands"
  have rs: "rs = take 5 ?us"
    using False by (simp add: rs_def search_def cands_def)
  note p = uniqueProds_props [of q ups, folded cands_def]
  have 1: "length rs \<le> 5" by (simp add: rs)
  have 2: "distinct (map product_name rs)"
    using p(1) by (simp add: rs take_map [symmetric] distinct_take del: take_map)
  have "subseq (take 5 ?us) ?us"
    by (metis append_take_drop_id prefixI prefix_imp_subseq)
  then have 3: "subseq rs cands"
    using p(2) unfolding rs by (rule subseq_order.trans)
  have 4: "\<forall>r \<in> set rs. find (\<lambda>c. product_name c = product_name r) cands = Some r"
    using p(4) in_set_takeD unfolding rs by fast
  from 1 2 3 4 rs p(1,2,3) show ?thesis by blast
qed

lemma search_collapses_example:
  "map code (search ''bar''
     (OffJson (Some
        [\<lparr>code = ''1'', product_name = Some ''Oat Bar'', brands = None, ingredients_text = None,
          allergens_tags = Some [''en:gluten'', ''fr:avoine'']\<rparr>,
         \<lparr>code = ''2'', product_name = Some ''Nut Bar'', brands = None, ingredients_text = None,
          allergens_tags = None\<rparr>,
         \<lparr>code = ''3'', product_name = Some ''Oat Bar'', brands = None, ingredients_text = None,
          allergens_tags = None\<rparr>,
         \<lparr>code = ''4'', product_name = Some ''Cereal'', brands = None, ingredients_text = None,
          allergens_tags = None\<rparr>]))) = [''1'', ''2'']"
  by code_simp

theorem search_dedup_first_five_witness:
  "trim ''bar'' \<noteq> [] \<and>
   search ''bar''
     (OffJson (Some
        [\<lparr>code = ''1'', product_name = Some ''Oat Bar'', brands = None, ingredients_text = None,
          allergens_tags = None\<rparr>,
         \<lparr>code = ''2'', product_name = Some ''Oat Bar'', brands = None, ingredients_text = None,
          allergens_tags = None\<rparr>])) =
   take 5 (uniqueProds (map toProduct (filter (nameMatches ''bar'')
        [\<lparr>code = ''1'', product_name = Some ''Oat Bar'', brands = None, ingredients_text = None,
          allergens_tags = None\<rparr>,
         \<lparr>code = ''2'', product_name = Some ''Oat Bar'', brands = None, ingredients_text = None,
          allergens_tags = None\<rparr>]))) \<and>
   length (search ''bar''
     (OffJson (Some
        [\<lparr>code = ''1'', product_name = Some ''Oat Bar'', brands = None, ingredients_text = None,
          allergens_tags = None\<rparr>,
         \<lparr>code = ''2'', product_name = Some ''Oat Bar'', brands = None, ingredients_text = None,
          allergens_tags = None\<rparr>]))) \<le> 5"
proof -
  have t: "trim ''bar'' \<noteq> []" by code_simp
  from search_dedup_first_five [of "''bar''"
        "[\<lparr>code = ''1'', product_name = Some ''Oat Bar'', brands = None, ingredients_text = None,
          allergens_tags = None\<rparr>,
         \<lparr>code = ''2'', product_name = Some ''Oat Bar'', brands = None, ingredients_text = None,
          allergens_tags = None\<rparr>]"] t
  show ?thesis by blast
qed

subsection \<open>Nutrition proxy\<close>

lemma blank_trimmedField: "blank v \<Longrightarrow> trimmedField v = Inr []"
  by (auto simp: blank_def trimmedField_def split: option.splits json.splits)

lemma get_hit:
  "cache k = Some (d, t) \<Longrightarrow> now - t \<le> 5 * 60 * 1000 \<Longrightarrow> get now cache k = (Some d, cache)"
  by (simp add: get_def)

lemma get_stale:
  "cache k = Some (d, t) \<Longrightarrow> now - t > 5 * 60 * 1000 \<Longrightarrow> get now cache k = (None, cache(k := None))"
  by (simp add: get_def)

lemma get_absent: "cache k = None \<Longrightarrow> get now cache k = (None, cache)"
  by (simp add: get_def)

lemma trimmedField_cases: "trimmedField v = Inl TypeError \<or> (\<exists>s. trimmedField v = Inr s)"
  by (simp add: trimmedField_def split: option.split json.split)

text \<open>
  C1, as the code has it. The key is checked first: without a configured key every
  request, also one with a blank name, is answered 500 "USDA_API_KEY missing in .env".
  With a key, a request with a blank name whose brand is absent, falsy or a string is
  answered 400 "name required". Neither answer touches the cache or the upstream service.
\<close>

theorem nutrition_validation:
  "(\<not> truthyText (USDA_KEY env) \<longrightarrow>
      nutrition env req cache =
        (errorResponse 500 ''USDA_API_KEY missing in .env'', cache, [])) \<and>
   (truthyText (USDA_KEY env) \<and> blank (name req) \<and> trimmedField (brand req) \<noteq> Inl TypeError \<longrightarrow>
      nutrition env req cache = (errorResponse 400 ''name required'', cache, []))"
proof (intro conjI impI)
  assume "\<not> truthyText (USDA_KEY env)"
  then show "nutrition env req cache =
        (errorResponse 500 ''USDA_API_KEY missing in .env'', cache, [])"
    by (simp add: nutrition_def)
next
  assume a: "truthyText (USDA_KEY env) \<and> blank (name req) \<and> trimmedField (brand req) \<noteq> Inl TypeError"
  then have n: "trimmedField (name req) = Inr []" by (simp add: blank_trimmedField)
  from a obtain b where b: "trimmedField (brand req) = Inr b"
    using trimmedField_cases [of "brand req"] by blast
  show "nutrition env req cache = (errorResponse 400 ''name required'', cache, [])"
    using a n b by (simp add: nutrition_def)
qed


lemma lookup_hit:
  assumes "get (now_get env) cache (cacheKeyOf (lookupQuery b n)) = (Some d, c1)"
  shows "lookup env b n cache = (okResponse d, c1, [])"
  using assms by (simp add: lookup_def Let_def)

lemma lookup_miss:
  assumes g: "get (now_get env) cache (cacheKeyOf (lookupQuery b n)) = (None, c1)"
  shows "\<exists>res c rest. lookup env b n cache = (res, c, SearchCall (lookupQuery b n) # rest) \<and>
           (status res \<noteq> 200 \<longrightarrow> c = c1)"
proof (cases "searchFoods env (lookupQuery b n)")
  case SearchThrows
  then show ?thesis using g by (simp add: lookup_def Let_def)
next
  case SearchNotOk
  then show ?thesis using g by (simp add: lookup_def Let_def)
next
  case (SearchBody foods)
  show ?thesis
  proof (cases "case foods of None \<Rightarrow> [] | Some hs \<Rightarrow> hs")
    case Nil
    then show ?thesis using g SearchBody by (simp add: lookup_def Let_def)
  next
    case (Cons h hs)
    show ?thesis
    proof (cases "foodDetail env (fdcId (pickHit b h hs))")
      case DetailThrows
      then show ?thesis using g SearchBody Cons by (simp add: lookup_def Let_def)
    next
      case (DetailBody d)
      then show ?thesis using g SearchBody Cons
        by (simp add: lookup_def Let_def okResponse_def)
    qed
  qed
qed


lemma get_frame:
  assumes "get now cache k = (r, c1)"
  shows "(\<forall>k'. c1 k' = cache k' \<or>
            (c1 k' = None \<and> (\<exists>d t. cache k' = Some (d, t) \<and> now - t > 5 * 60 * 1000))) \<and>
         (r = None \<longrightarrow> c1 k = None)"
proof (cases "cache k")
  case None
  with assms show ?thesis by (auto simp: get_def)
next
  case (Some e)
  obtain d t where e: "e = (d, t)" by (cases e)
  show ?thesis
  proof (cases "now - t > 5 * 60 * 1000")
    case True
    with assms Some e have "r = None" "c1 = cache(k := None)" by (auto simp: get_def)
    with Some e True show ?thesis by auto
  next
    case False
    with assms Some e have "r = Some d" "c1 = cache" by (auto simp: get_def)
    then show ?thesis by simp
  qed
qed

lemma lookup_cong:
  "get (now_get env) cache (cacheKeyOf (lookupQuery b n)) =
   get (now_get env) cache2 (cacheKeyOf (lookupQuery b n)) \<Longrightarrow>
   lookup env b n cache = lookup env b n cache2"
  by (simp add: lookup_def)

lemma nutrition_valid:
  assumes "truthyText (USDA_KEY env)" and "trimmedField (name req) = Inr n" and "n \<noteq> []"
    and "trimmedField (brand req) = Inr b"
  shows "nutrition env req cache = lookup env b n cache"
  using assms by (simp add: nutrition_def)

text \<open>
  C2. For a request that passes validation: an entry under its key that is not older than
  5 minutes is returned as it is, with no upstream call and the cache untouched; with no
  entry, or one older than 5 minutes, the answer is that of the same request on the cache
  without the entry, and the first thing done is the upstream search for the query.
\<close>

theorem nutrition_cache_ttl:
  assumes "truthyText (USDA_KEY env)" and "trimmedField (name req) = Inr n" and "n \<noteq> []"
    and "trimmedField (brand req) = Inr b"
  shows "(cache (cacheKeyOf (lookupQuery b n)) = Some (d, t) \<and> now_get env - t \<le> 5 * 60 * 1000 \<longrightarrow>
            nutrition env req cache = (okResponse d, cache, [])) \<and>
         (cache (cacheKeyOf (lookupQuery b n)) = None \<or>
          (\<exists>d t. cache (cacheKeyOf (lookupQuery b n)) = Some (d, t) \<and>
                 now_get env - t > 5 * 60 * 1000) \<longrightarrow>
            nutrition env req cache = nutrition env req (cache(cacheKeyOf (lookupQuery b n) := None)) \<and>
            (\<exists>res c rest. nutrition env req cache = (res, c, SearchCall (lookupQuery b n) # rest)))"
proof (intro conjI impI)
  let ?k = "cacheKeyOf (lookupQuery b n)"
  note v = nutrition_valid [OF assms]
  {
    assume "cache ?k = Some (d, t) \<and> now_get env - t \<le> 5 * 60 * 1000"
    then have "get (now_get env) cache ?k = (Some d, cache)" by (simp add: get_hit)
    then show "nutrition env req cache = (okResponse d, cache, [])"
      by (simp add: v lookup_hit)
  }
  assume m: "cache ?k = None \<or> (\<exists>d t. cache ?k = Some (d, t) \<and> now_get env - t > 5 * 60 * 1000)"
  then have g: "get (now_get env) cache ?k = (None, cache(?k := None))"
  proof
    assume "cache ?k = None"
    moreover from this have "cache(?k := None) = cache" by auto
    ultimately show ?thesis by (simp add: get_absent)
  next
    assume "\<exists>d t. cache ?k = Some (d, t) \<and> now_get env - t > 5 * 60 * 1000"
    then show ?thesis by (auto simp: get_stale)
  qed
  have g2: "get (now_get env) (cache(?k := None)) ?k = (None, cache(?k := None))"
    by (simp add: get_absent)
  show "nutrition env req cache = nutrition env req (cache(?k := None))"
    unfolding v by (rule lookup_cong) (simp only: g g2)
  from lookup_miss [OF g]
  show "\<exists>res c rest. nutrition env req cache = (res, c, SearchCall (lookupQuery b n) # rest)"
    unfolding v by blast
qed


lemma nutrition_invalid:
  assumes "\<not> (truthyText (USDA_KEY env) \<and> (\<exists>n b. trimmedField (name req) = Inr n \<and> n \<noteq> [] \<and>
              trimmedField (brand req) = Inr b))"
  shows "\<exists>res. nutrition env req cache = (res, cache, []) \<and> status res \<noteq> 200 \<and>
           (\<forall>env2 cache2. USDA_KEY env2 = USDA_KEY env \<longrightarrow>
              nutrition env2 req cache2 = (res, cache2, []))"
proof (cases "truthyText (USDA_KEY env)")
  case False
  then show ?thesis by (simp add: nutrition_def errorResponse_def)
next
  case True
  show ?thesis
  proof (cases "trimmedField (name req)")
    case (Inl e)
    with True show ?thesis by (simp add: nutrition_def errorResponse_def serverError_def)
  next
    case (Inr n)
    show ?thesis
    proof (cases "trimmedField (brand req)")
      case (Inl e)
      with True Inr show ?thesis by (simp add: nutrition_def errorResponse_def serverError_def)
    next
      case b: (Inr b)
      with True Inr assms have "n = []" by auto
      with True Inr b show ?thesis by (simp add: nutrition_def errorResponse_def)
    qed
  qed
qed

lemma get_miss:
  assumes "get now cache k = (None, c1)"
  shows "c1 = cache(k := None) \<and>
         (cache k = None \<or> (\<exists>d t. cache k = Some (d, t) \<and> now - t > 5 * 60 * 1000))"
proof (cases "cache k")
  case None
  then have "cache(k := None) = cache" by auto
  with assms None show ?thesis by (simp add: get_def)
next
  case (Some e)
  obtain d t where e: "e = (d, t)" by (cases e)
  show ?thesis
  proof (cases "now - t > 5 * 60 * 1000")
    case True
    with assms Some e show ?thesis by (simp add: get_def)
  next
    case False
    with assms Some e show ?thesis by (simp add: get_def)
  qed
qed

text \<open>
  C9, as the code has it. A request answered with an error stores nothing. An error without
  an upstream call is a validation error: the cache is as it was, and an identical request
  is answered the same way. An error with upstream calls comes behind the cache lookup:
  every key other than the request's key holds what it held, the request's key held no
  entry or one older than 5 minutes (which the lookup deleted) and holds none afterwards,
  and an identical request starts with the same upstream search again.
\<close>

theorem nutrition_error_no_store:
  assumes run: "nutrition env req cache = (res, cache', calls)" and err: "status res \<noteq> 200"
  shows "(calls = [] \<longrightarrow> cache' = cache \<and>
            (\<forall>env2. USDA_KEY env2 = USDA_KEY env \<longrightarrow>
               nutrition env2 req cache' = (res, cache', []))) \<and>
         (calls \<noteq> [] \<longrightarrow>
            (\<exists>n b. trimmedField (name req) = Inr n \<and> trimmedField (brand req) = Inr b \<and>
               hd calls = SearchCall (lookupQuery b n) \<and>
               (\<forall>k. k \<noteq> cacheKeyOf (lookupQuery b n) \<longrightarrow> cache' k = cache k) \<and>
               cache' (cacheKeyOf (lookupQuery b n)) = None \<and>
               (cache (cacheKeyOf (lookupQuery b n)) = None \<or>
                (\<exists>d t. cache (cacheKeyOf (lookupQuery b n)) = Some (d, t) \<and>
                       now_get env - t > 5 * 60 * 1000))) \<and>
            (\<forall>env2. USDA_KEY env2 = USDA_KEY env \<longrightarrow>
               (\<exists>res2 c2 rest2. nutrition env2 req cache' = (res2, c2, hd calls # rest2))))"
proof (cases "truthyText (USDA_KEY env) \<and> (\<exists>n b. trimmedField (name req) = Inr n \<and> n \<noteq> [] \<and>
              trimmedField (brand req) = Inr b)")
  case False
  from nutrition_invalid [OF False, of cache] run
  have 1: "cache' = cache" "calls = []"
    and 2: "\<forall>env2 cache2. USDA_KEY env2 = USDA_KEY env \<longrightarrow>
              nutrition env2 req cache2 = (res, cache2, [])"
    by auto
  from 1 2 show ?thesis by simp
next
  case True
  then obtain n b where key: "truthyText (USDA_KEY env)"
    and n: "trimmedField (name req) = Inr n" "n \<noteq> []"
    and b: "trimmedField (brand req) = Inr b" by blast
  let ?q = "lookupQuery b n"
  let ?k = "cacheKeyOf ?q"
  have v: "nutrition env req cache = lookup env b n cache"
    by (rule nutrition_valid [OF key n b])
  obtain r c1 where g: "get (now_get env) cache ?k = (r, c1)"
    by (cases "get (now_get env) cache ?k")
  have miss: "r = None"
  proof (cases r)
    case (Some d)
    with g have "lookup env b n cache = (okResponse d, c1, [])" by (simp add: lookup_hit)
    with run v have "res = okResponse d" by simp
    then have "status res = 200" by (simp add: okResponse_def)
    with err show ?thesis by simp
  qed simp
  from lookup_miss [of env cache b n c1] g miss
  obtain res0 c0 rest where l: "lookup env b n cache = (res0, c0, SearchCall ?q # rest)"
    and c: "status res0 \<noteq> 200 \<longrightarrow> c0 = c1" by auto
  from l run v have eqs: "res = res0" "cache' = c0" "calls = SearchCall ?q # rest" by simp_all
  with c err have c': "cache' = c1" by simp
  from get_miss [of "now_get env" cache ?k c1] g miss c'
  have upd: "cache' = cache(?k := None)"
    and old: "cache ?k = None \<or> (\<exists>d t. cache ?k = Some (d, t) \<and> now_get env - t > 5 * 60 * 1000)"
    by simp_all
  from upd have others: "\<forall>k. k \<noteq> ?k \<longrightarrow> cache' k = cache k"
    and gone: "cache' ?k = None" by simp_all
  have again: "\<exists>res2 c2 rest2. nutrition env2 req cache' = (res2, c2, hd calls # rest2)"
    if k2: "USDA_KEY env2 = USDA_KEY env" for env2
  proof -
    have "truthyText (USDA_KEY env2)" using key k2 by simp
    then have v2: "nutrition env2 req cache' = lookup env2 b n cache'"
      using n b by (rule nutrition_valid)
    have "get (now_get env2) cache' ?k = (None, cache')"
      using gone by (simp add: get_absent)
    from lookup_miss [OF this] show ?thesis
      unfolding v2 eqs(3) by auto
  qed
  have hd: "hd calls = SearchCall ?q" by (simp add: eqs(3))
  have ne: "calls \<noteq> []" by (simp add: eqs(3))
  have frame: "\<exists>n b. trimmedField (name req) = Inr n \<and> trimmedField (brand req) = Inr b \<and>
               hd calls = SearchCall (lookupQuery b n) \<and>
               (\<forall>k. k \<noteq> cacheKeyOf (lookupQuery b n) \<longrightarrow> cache' k = cache k) \<and>
               cache' (cacheKeyOf (lookupQuery b n)) = None \<and>
               (cache (cacheKeyOf (lookupQuery b n)) = None \<or>
                (\<exists>d t. cache (cacheKeyOf (lookupQuery b n)) = Some (d, t) \<and>
                       now_get env - t > 5 * 60 * 1000))"
    using n(1) b hd others gone old by blast
  from frame again ne show ?thesis by blast
qed


lemma oats_name: "trimmedField (name oatsRequest) = Inr ''oats''"
  unfolding oatsRequest_def by code_simp

lemma oats_brand: "trimmedField (brand oatsRequest) = Inr []"
  by (simp add: trimmedField_def oatsRequest_def)

lemma oats_query: "lookupQuery [] ''oats'' = ''oats''"
  by code_simp

lemma oats_key: "cacheKeyOf ''oats'' = ''USDA::oats''"
  by code_simp

lemma blank_blankRequest: "blank (name blankRequest)"
  unfolding blankRequest_def by code_simp

text \<open>A request with a blank name that is not answered 400: the key is not configured.\<close>

theorem blank_name_without_key_counterexample:
  "blank (name blankRequest) \<and>
   fst (nutrition (downEnv None 0) blankRequest Map.empty) =
     errorResponse 500 ''USDA_API_KEY missing in .env'' \<and>
   fst (nutrition (downEnv None 0) blankRequest Map.empty) \<noteq>
     errorResponse 400 ''name required''"
proof -
  have "fst (nutrition (downEnv None 0) blankRequest Map.empty) =
      errorResponse 500 ''USDA_API_KEY missing in .env''"
    by (simp add: nutrition_def truthyText_def downEnv_def)
  then show ?thesis by (simp add: errorResponse_def blank_blankRequest)
qed

theorem nutrition_validation_witness:
  "nutrition (downEnv None 0) oatsRequest Map.empty =
     (errorResponse 500 ''USDA_API_KEY missing in .env'', Map.empty, []) \<and>
   nutrition (downEnv (Some ''k'') 0) blankRequest Map.empty =
     (errorResponse 400 ''name required'', Map.empty, [])"
proof -
  have 1: "\<not> truthyText (USDA_KEY (downEnv None 0))"
    by (simp add: truthyText_def downEnv_def)
  have 2: "truthyText (USDA_KEY (downEnv (Some ''k'') 0))"
    by (simp add: truthyText_def downEnv_def)
  have 4: "trimmedField (brand blankRequest) \<noteq> Inl TypeError"
    by (simp add: trimmedField_def blankRequest_def)
  from nutrition_validation [of "downEnv None 0" oatsRequest Map.empty] 1
       nutrition_validation [of "downEnv (Some ''k'') 0" blankRequest Map.empty]
       2 blank_blankRequest 4
  show ?thesis by blast
qed

theorem nutrition_cache_ttl_witness:
  "nutrition (downEnv (Some ''k'') 300000) oatsRequest oatsCache =
     (okResponse oatsInfo, oatsCache, []) \<and>
   (\<exists>res c rest. nutrition (downEnv (Some ''k'') 300001) oatsRequest oatsCache =
      (res, c, SearchCall ''oats'' # rest))"
proof -
  have k: "truthyText (USDA_KEY (downEnv (Some ''k'') t))" for t
    by (simp add: truthyText_def downEnv_def)
  have ne: "''oats'' \<noteq> []" by simp
  have c: "oatsCache (cacheKeyOf (lookupQuery [] ''oats'')) = Some (oatsInfo, 0)"
    by (simp add: oats_query oats_key oatsCache_def)
  have fresh: "now_get (downEnv (Some ''k'') 300000) - 0 \<le> 5 * 60 * 1000"
    by (simp add: downEnv_def)
  have stale: "now_get (downEnv (Some ''k'') 300001) - 0 > 5 * 60 * 1000"
    by (simp add: downEnv_def)
  from nutrition_cache_ttl [OF k oats_name ne oats_brand, of oatsCache oatsInfo 0 300000] c fresh
  have 1: "nutrition (downEnv (Some ''k'') 300000) oatsRequest oatsCache =
     (okResponse oatsInfo, oatsCache, [])" by blast
  from nutrition_cache_ttl [OF k oats_name ne oats_brand, of oatsCache _ _ 300001] c stale
  have 2: "\<exists>res c rest. nutrition (downEnv (Some ''k'') 300001) oatsRequest oatsCache =
      (res, c, SearchCall (lookupQuery [] ''oats'') # rest)"
    by blast
  from 1 2 show ?thesis by (simp add: oats_query)
qed

lemma stale_failure_run:
  "nutrition (downEnv (Some ''k'') 300001) oatsRequest oatsCache =
     (serverError, oatsCache(''USDA::oats'' := None), [SearchCall ''oats''])"
proof -
  have k: "truthyText (USDA_KEY (downEnv (Some ''k'') 300001))"
    by (simp add: truthyText_def downEnv_def)
  have ne: "''oats'' \<noteq> []" by simp
  have "nutrition (downEnv (Some ''k'') 300001) oatsRequest oatsCache =
      lookup (downEnv (Some ''k'') 300001) [] ''oats'' oatsCache"
    using k oats_name ne oats_brand by (rule nutrition_valid)
  also have "\<dots> = (serverError, oatsCache(''USDA::oats'' := None), [SearchCall ''oats''])"
    by (simp add: lookup_def oats_query oats_key get_def oatsCache_def downEnv_def)
  finally show ?thesis .
qed

text \<open>An error response after which the cache is not what it was: the expired entry of the
  request's key is deleted by the lookup, then the search fails.\<close>

theorem error_evicts_stale_entry_counterexample:
  "status (fst (nutrition (downEnv (Some ''k'') 300001) oatsRequest oatsCache)) = 500 \<and>
   fst (snd (nutrition (downEnv (Some ''k'') 300001) oatsRequest oatsCache)) \<noteq> oatsCache"
proof -
  have "(oatsCache(''USDA::oats'' := None)) ''USDA::oats'' \<noteq> oatsCache ''USDA::oats''"
    by (simp add: oatsCache_def)
  then have "oatsCache(''USDA::oats'' := None) \<noteq> oatsCache"
    by metis
  then show ?thesis by (simp add: stale_failure_run serverError_def errorResponse_def)
qed

theorem nutrition_error_no_store_witness:
  "fst (snd (nutrition (downEnv (Some ''k'') 300001) oatsRequest oatsCache)) ''USDA::oats'' = None \<and>
   oatsCache ''USDA::oats'' = Some (oatsInfo, 0) \<and>
   fst (snd (nutrition (downEnv (Some ''k'') 300001) oatsRequest oatsCache)) ''USDA::rice'' =
     oatsCache ''USDA::rice'' \<and>
   (\<exists>res2 c2 rest2.
      nutrition (downEnv (Some ''k'') 900000) oatsRequest
        (fst (snd (nutrition (downEnv (Some ''k'') 300001) oatsRequest oatsCache))) =
      (res2, c2, SearchCall ''oats'' # rest2))"
proof -
  let ?c = "oatsCache(''USDA::oats'' := None)"
  have e: "status serverError \<noteq> 200" by (simp add: serverError_def errorResponse_def)
  have k: "USDA_KEY (downEnv (Some ''k'') 900000) = USDA_KEY (downEnv (Some ''k'') 300001)"
    by (simp add: downEnv_def)
  note t = nutrition_error_no_store [OF stale_failure_run e]
  from t obtain n b where nb: "trimmedField (name oatsRequest) = Inr n"
      "trimmedField (brand oatsRequest) = Inr b"
    and others: "\<forall>k. k \<noteq> cacheKeyOf (lookupQuery b n) \<longrightarrow> ?c k = oatsCache k"
    and gone: "?c (cacheKeyOf (lookupQuery b n)) = None"
    by auto
  from nb have "n = ''oats''" "b = []" by (simp_all add: oats_name oats_brand)
  with others gone have 1: "?c ''USDA::oats'' = None" "?c ''USDA::rice'' = oatsCache ''USDA::rice''"
    by (simp_all add: oats_query oats_key)
  from t k
  have 2: "\<exists>res2 c2 rest2. nutrition (downEnv (Some ''k'') 900000) oatsRequest ?c =
      (res2, c2, hd [SearchCall ''oats''] # rest2)"
    by blast
  have 3: "oatsCache ''USDA::oats'' = Some (oatsInfo, 0)" by (simp add: oatsCache_def)
  from 1 2 3 show ?thesis by (simp add: stale_failure_run)
qed

subsection \<open>Profile store and profile state\<close>










lemma loadProfile_null: "loadProfile (Some ''null'') = JNull"
  by code_simp



lemma loadProfile_unparsable: "loadProfile (Some ''{milk'') = JObject []"
  by code_simp

text \<open>
  C7. The store is to return the persisted mapping, or an empty mapping when nothing is
  persisted or the persisted value is not profile data, and never to fail. Text that does
  not parse gives the empty mapping, but text that parses to something other than a
  mapping is returned as parsed: for the stored text \<^verbatim>\<open>null\<close> the profile is \<^verbatim>\<open>null\<close>, and the
  component's first reading \<^verbatim>\<open>profile[a.key]\<close> throws.
\<close>

theorem loadProfile_returns_non_mapping:
  "loadProfile (Some ''null'') = JNull \<and>
   loadProfile (Some ''null'') \<noteq> JObject [] \<and>
   selectedLabels (loadProfile (Some ''null'')) = Inl TypeError \<and>
   loadProfile (Some ''[1]'') = JArray [JNumber 1 0] \<and>
   loadProfile (Some ''5'') = JNumber 5 0"
  by code_simp




end
